theory Spec2Isabelle
  imports Complex_Main "HOL-Library.Word" "HOL-Library.AList"
begin

unbundle bit_operations_syntax

section \<open>The program: main.go of bluetooth-temp-logger\<close>

text \<open>
  The development embeds \<^verbatim>\<open>onDiscovery\<close> and the event loop \<^verbatim>\<open>serve\<close> of
  \<^verbatim>\<open>src/main.go\<close>. A Go byte is an \<open>8 word\<close>, a \<^verbatim>\<open>[]byte\<close> a list of them.
  Go checks every index and every slice bound at run time: a violated bound is a
  run-time panic, which is a value of the model. The source has no \<^verbatim>\<open>recover\<close>,
  so a panic raised inside \<^verbatim>\<open>onDiscovery\<close> unwinds through \<^verbatim>\<open>serve\<close> and
  \<^verbatim>\<open>main\<close>.
\<close>

subsection \<open>Bytes, slices and run-time panics\<close>

type_synonym byte = "8 word"

datatype panic =
    IndexOutOfRange      \<comment> \<open>\<^verbatim>\<open>b[i]\<close> with \<^verbatim>\<open>i >= len(b)\<close>\<close>
  | SliceBoundsOutOfRange  \<comment> \<open>\<^verbatim>\<open>b[k:]\<close> with \<^verbatim>\<open>k > len(b)\<close>\<close>

text \<open>\<^verbatim>\<open>b[i]\<close>\<close>

definition index :: "byte list \<Rightarrow> nat \<Rightarrow> panic + byte" where
  "index b i = (if i < length b then Inr (b ! i) else Inl IndexOutOfRange)"

text \<open>\<^verbatim>\<open>b[k:]\<close>\<close>

definition slice_from :: "nat \<Rightarrow> byte list \<Rightarrow> panic + byte list" where
  "slice_from k b = (if k \<le> length b then Inr (drop k b) else Inl SliceBoundsOutOfRange)"

text \<open>
  \<^verbatim>\<open>binary.LittleEndian.Uint16(b)\<close>: the library reads \<^verbatim>\<open>b[1]\<close> first as a bounds
  check, then returns \<^verbatim>\<open>uint16(b[0]) | uint16(b[1])<<8\<close>.
\<close>

definition Uint16 :: "byte list \<Rightarrow> panic + 16 word" where
  "Uint16 b =
     (if 1 < length b then Inr ((ucast (b ! 0) :: 16 word) OR push_bit 8 (ucast (b ! 1) :: 16 word))
      else Inl IndexOutOfRange)"

text \<open>Sequencing of steps that may panic: the first panic ends the computation.\<close>

definition and_then :: "panic + 'a \<Rightarrow> ('a \<Rightarrow> panic + 'b) \<Rightarrow> panic + 'b" where
  "and_then r f = (case r of Inl e \<Rightarrow> Inl e | Inr x \<Rightarrow> f x)"

subsection \<open>Formatting\<close>

text \<open>The verb \<^verbatim>\<open>%d\<close> on a non-negative integer.\<close>

definition digit :: "nat \<Rightarrow> char" where
  "digit n = ''0123456789'' ! n"

function fmt_d :: "nat \<Rightarrow> string" where
  "fmt_d n = (if n < 10 then [digit n] else fmt_d (n div 10) @ [digit (n mod 10)])"
  by pat_completeness auto
termination
  by (relation "measure (\<lambda>n. n)") auto

declare fmt_d.simps [simp del]

text \<open>The verb \<^verbatim>\<open>%v\<close> on a bool.\<close>

definition fmt_v :: "bool \<Rightarrow> string" where
  "fmt_v b = (if b then ''true'' else ''false'')"

text \<open>
  The verb \<^verbatim>\<open>%.01f\<close>. The only value formatted with it is
  \<^verbatim>\<open>0.0625 * float64(int16(..))\<close>, a multiple of \<open>1/16\<close> of absolute value at most
  \<open>2048\<close>: it is a binary floating-point number that float64 holds exactly, so the
  model keeps it as the real number it denotes. Go prints the decimal that is nearest
  to the exact value with one digit after the point, a tie going to the even digit,
  and keeps the sign of a negative value that rounds to zero.
\<close>

definition round_half_even :: "real \<Rightarrow> int" where
  "round_half_even x =
     (let f = \<lfloor>x\<rfloor>; d = x - of_int f
      in if d < 1 / 2 then f else if 1 / 2 < d then f + 1 else if even f then f else f + 1)"

definition fmt_f1 :: "real \<Rightarrow> string" where
  "fmt_f1 x =
     (let t = nat (round_half_even (\<bar>x\<bar> * 10))
      in (if x < 0 then ''-'' else '''') @ fmt_d (t div 10) @ ''.'' @ fmt_d (t mod 10))"

text \<open>
  The text of \<^verbatim>\<open>" light:%v/%d/%d/%d"\<close> for \<^verbatim>\<open>isIR, dataResolution, dataRange, data\<close>.
\<close>

definition light_text :: "bool \<Rightarrow> byte \<Rightarrow> byte \<Rightarrow> 16 word \<Rightarrow> string" where
  "light_text isIR dataResolution dataRange data =
     '' light:'' @ fmt_v isIR @ ''/'' @ fmt_d (unat dataResolution)
       @ ''/'' @ fmt_d (unat dataRange) @ ''/'' @ fmt_d (unat data)"

text \<open>The degree sign of the format string, as its two bytes in UTF-8.\<close>

definition degree :: string where
  "degree = [CHR 0xC2, CHR 0xB0]"

subsection \<open>What the program emits\<close>

text \<open>
  A line written by \<^verbatim>\<open>log.Printf\<close> (without its final newline), and a value set
  on one of the two Prometheus gauges, labelled with the peripheral's id.
\<close>

datatype effect =
    Log string
  | Battery string real    \<comment> \<open>\<^verbatim>\<open>battery.WithLabelValues(id).Set(v)\<close>\<close>
  | AirTemp string real    \<comment> \<open>\<^verbatim>\<open>airTemp.WithLabelValues(id).Set(v)\<close>\<close>

subsection \<open>The record loop of onDiscovery (lines 145 to 194)\<close>

text \<open>
  One iteration of the loop in two parts. \<open>dispatch\<close> is the \<^verbatim>\<open>switch dataType\<close>
  of lines 158 to 193; \<open>record_step\<close> is the whole body after the control byte
  \<open>c = rest[0]\<close> has been read and \<^verbatim>\<open>rest = rest[1:]\<close> taken, so its argument is
  what follows the control byte. \<open>str\<close> is the contents of the string builder. The
  result is a panic, or the new \<open>rest\<close>, the new builder contents and the gauge values
  set. \<^verbatim>\<open>rest = nil\<close> is the empty list. The \<^verbatim>\<open>switch\<close> has no default case:
  any other data type leaves \<open>rest\<close> as it is. In Go \<^verbatim>\<open>&\<close> and \<^verbatim>\<open>>>\<close> have the
  same precedence and associate to the left, so \<^verbatim>\<open>rest[0] & m >> k\<close> masks first and
  shifts after.
\<close>

definition dispatch ::
  "string \<Rightarrow> byte \<Rightarrow> byte list \<Rightarrow> string \<Rightarrow> panic + (byte list \<times> string \<times> effect list)" where
  "dispatch pid dataType rest str =
     (if dataType = 0x01 then
        and_then (slice_from 2 rest) (\<lambda>rest'. Inr (rest', str, []))
      else if dataType = 0x02 then
        and_then (index rest 0) (\<lambda>d.
          let isIR = (d AND 0x80 \<noteq> 0);
              dataResolution = drop_bit 4 (d AND 0x30);
              dataRange = drop_bit 2 (d AND 0x0c);
              dataLen = d AND 0x03
          in and_then (if dataLen = 2 then and_then (slice_from 1 rest) Uint16
                       else and_then (index rest 1) (\<lambda>v. Inr (ucast v :: 16 word))) (\<lambda>data.
             let str' = str @ light_text isIR dataResolution dataRange data
             in and_then (slice_from (1 + unat dataLen) rest) (\<lambda>rest'. Inr (rest', str', []))))
      else if dataType = 0x03 then
        and_then (Uint16 rest) (\<lambda>w.
          let temp = 0.0625 * real_of_int (sint w);
              str' = str @ '' temp:'' @ fmt_f1 temp @ degree @ ''C''
          in and_then (slice_from 2 rest) (\<lambda>rest'. Inr (rest', str', [AirTemp pid temp])))
      else if dataType = 0x2f then
        and_then (slice_from 1 rest) (\<lambda>rest'. Inr (rest', str, []))
      else if dataType = 0x3f then Inr ([], str, [])
      else Inr (rest, str, []))"

definition record_step ::
  "string \<Rightarrow> byte \<Rightarrow> byte list \<Rightarrow> string \<Rightarrow> panic + (byte list \<times> string \<times> effect list)" where
  "record_step pid c rest0 str =
     (let dataType = c AND 0x3f;
          hasData = (c AND 0x40 \<noteq> 0);
          hasAlert = (c AND 0x80 \<noteq> 0)
      in and_then (if hasAlert then slice_from 1 rest0 else Inr rest0) (\<lambda>rest.
           if \<not> hasData then Inr (rest, str, []) else dispatch pid dataType rest str))"

text \<open>
  The bytes one iteration reads or skips: \<open>payload_needed\<close> for the \<^verbatim>\<open>switch\<close> on
  the bytes it is given, \<open>needed\<close> for the whole record after its control byte (the
  alert byte and the payload). A light record needs its descriptor and the bytes its
  length code counts, and at least the byte that is read as the value. A record is
  \<open>truncated\<close> when fewer bytes follow its control byte.
\<close>

definition payload_needed :: "byte \<Rightarrow> byte list \<Rightarrow> nat" where
  "payload_needed dataType rest =
     (if dataType = 0x01 then 2
      else if dataType = 0x02 then
        (case rest of [] \<Rightarrow> 1 | d # _ \<Rightarrow> max 2 (1 + unat (d AND 0x03)))
      else if dataType = 0x03 then 2
      else if dataType = 0x2f then 1
      else 0)"

definition needed :: "byte \<Rightarrow> byte list \<Rightarrow> nat" where
  "needed c rest =
     (let alert = (if c AND 0x80 \<noteq> 0 then 1 else 0)
      in alert + (if c AND 0x40 \<noteq> 0 then payload_needed (c AND 0x3f) (drop alert rest) else 0))"

definition truncated :: "byte \<Rightarrow> byte list \<Rightarrow> bool" where
  "truncated c rest = (length rest < needed c rest)"

text \<open>Each iteration that does not panic leaves no more bytes than it was given.\<close>

lemma and_then_Inr: "and_then r f = Inr y \<longleftrightarrow> (\<exists>x. r = Inr x \<and> f x = Inr y)"
  by (cases r) (simp_all add: and_then_def)

lemma slice_from_Inr: "slice_from k b = Inr r \<longleftrightarrow> k \<le> length b \<and> r = drop k b"
  by (auto simp: slice_from_def)

lemma dispatch_shorter:
  assumes "dispatch pid t rest str = Inr (rest', str', outs)"
  shows "length rest' \<le> length rest"
proof -
  consider "t = 0x01" | "t = 0x02" | "t = 0x03" | "t = 0x2f" | "t = 0x3f"
    | "t \<noteq> 0x01" "t \<noteq> 0x02" "t \<noteq> 0x03" "t \<noteq> 0x2f" "t \<noteq> 0x3f"
    by blast
  then show ?thesis
  proof cases
    case 1
    with assms show ?thesis by (auto simp: dispatch_def and_then_Inr slice_from_Inr)
  next
    case 2
    with assms show ?thesis
      by (auto simp: dispatch_def and_then_Inr slice_from_Inr Let_def)
  next
    case 3
    with assms show ?thesis
      by (auto simp: dispatch_def and_then_Inr slice_from_Inr Let_def)
  next
    case 4
    with assms show ?thesis by (auto simp: dispatch_def and_then_Inr slice_from_Inr)
  next
    case 5
    with assms show ?thesis by (simp add: dispatch_def)
  next
    case 6
    with assms show ?thesis by (simp add: dispatch_def)
  qed
qed

lemma record_step_shorter:
  assumes "record_step pid c rest str = Inr (rest', str', outs)"
  shows "length rest' \<le> length rest"
proof -
  from assms obtain r where r: "(if c AND 0x80 \<noteq> 0 then slice_from 1 rest else Inr rest) = Inr r"
    and d: "(if \<not> c AND 0x40 \<noteq> 0 then Inr (r, str, []) else dispatch pid (c AND 0x3f) r str)
            = Inr (rest', str', outs)"
    unfolding record_step_def Let_def and_then_Inr by blast
  from r have "length r \<le> length rest"
    by (auto simp: slice_from_Inr split: if_splits)
  moreover from d have "length rest' \<le> length r"
    by (auto dest: dispatch_shorter split: if_splits)
  ultimately show ?thesis by simp
qed

text \<open>
  The loop \<^verbatim>\<open>for len(rest) > 0\<close>. The result is the gauge values set, in order,
  and either the panic that ended the loop or the builder contents at its end.
\<close>

function records :: "string \<Rightarrow> byte list \<Rightarrow> string \<Rightarrow> effect list \<times> (panic + string)" where
  "records pid [] str = ([], Inr str)"
| "records pid (c # rest) str =
     (case record_step pid c rest str of
        Inl e \<Rightarrow> ([], Inl e)
      | Inr (rest', str', outs) \<Rightarrow>
          (case records pid rest' str' of (outs', r) \<Rightarrow> (outs @ outs', r)))"
  by pat_completeness auto
termination
  by (relation "measure (\<lambda>(pid, rest, str). length rest)")
     (auto dest: record_step_shorter)

text \<open>
  The same loop with a bound on the number of iterations: \<open>None\<close> when the bound is
  reached before the loop ends.
\<close>

fun records_within :: "nat \<Rightarrow> string \<Rightarrow> byte list \<Rightarrow> string \<Rightarrow> (effect list \<times> (panic + string)) option" where
  "records_within n pid [] str = Some ([], Inr str)"
| "records_within 0 pid (c # rest) str = None"
| "records_within (Suc n) pid (c # rest) str =
     (case record_step pid c rest str of
        Inl e \<Rightarrow> Some ([], Inl e)
      | Inr (rest', str', outs) \<Rightarrow>
          (case records_within n pid rest' str' of
             None \<Rightarrow> None
           | Some (outs', r) \<Rightarrow> Some (outs @ outs', r)))"

subsection \<open>The state: one update per peripheral id\<close>

record update =
  message :: string
  changed :: bool

text \<open>
  \<^verbatim>\<open>map[string]*update\<close>. Every pointer in the map comes from its own
  \<^verbatim>\<open>&update{}\<close>, so no two keys share an update and the map is modelled by value.
  It is an association list because \<^verbatim>\<open>serve\<close> ranges over it; the order in which
  Go visits the keys is not specified, the model visits them in list order. The keys
  of a Go map are distinct: the lists that stand for one have distinct keys, which
  both operations below keep.
\<close>

type_synonym updates = "(string \<times> update) list"

text \<open>
  Lines 196 to 206 of \<^verbatim>\<open>onDiscovery\<close>, the operation the specification calls
  \<open>apply\<close>: \<open>res\<close> is the summary. The result is the log line written, if any,
  and the new map.
\<close>

definition apply_summary :: "updates \<Rightarrow> string \<Rightarrow> string \<Rightarrow> effect list \<times> updates" where
  "apply_summary s pid res =
     (case (case map_of s pid of
              None \<Rightarrow> (\<lparr>message = [], changed = False\<rparr>,
                        AList.update pid \<lparr>message = [], changed = False\<rparr> s,
                        [Log (pid @ '': new: '' @ res)])
            | Some u \<Rightarrow> (u, s, [])) of
        (cur, s', outs) \<Rightarrow>
          if message cur \<noteq> res
          then (outs, AList.update pid (cur\<lparr>message := res, changed := True\<rparr>) s')
          else (outs, s'))"

text \<open>
  Lines 116 to 121 of \<^verbatim>\<open>serve\<close>, the operation the specification calls
  \<open>drainChanged\<close>: the pairs of id and message logged, and the new map.
\<close>

fun drainChanged :: "updates \<Rightarrow> (string \<times> string) list \<times> updates" where
  "drainChanged [] = ([], [])"
| "drainChanged ((pid, u) # s) =
     (case drainChanged s of
        (ls, s') \<Rightarrow>
          if changed u then ((pid, message u) # ls, (pid, u\<lparr>changed := False\<rparr>) # s')
          else (ls, (pid, u) # s'))"

subsection \<open>onDiscovery\<close>

text \<open>
  \<open>pid\<close> is \<^verbatim>\<open>p.ID()\<close>, \<open>md\<close> is \<^verbatim>\<open>a.ManufacturerData\<close>; \<^verbatim>\<open>rssi\<close> is not used
  by the source. The result is what was emitted, in order, the map afterwards, and the
  panic that ended the call, if one did.
\<close>

definition magic :: "byte list" where
  "magic = [0x85, 0x00, 0x02, 0x00, 0x3c]"

definition onDiscovery :: "updates \<Rightarrow> string \<Rightarrow> byte list \<Rightarrow> effect list \<times> updates \<times> panic option" where
  "onDiscovery s pid md =
     (if length md < 7 then ([], s, None)
      else if take 5 md \<noteq> magic then ([], s, None)
      else
        let batt = unat (md ! 5) in
        case records pid (drop 7 md) (''batt:'' @ fmt_d batt @ ''%'') of
          (outs, Inl e) \<Rightarrow> (Battery pid (real batt) # outs, s, Some e)
        | (outs, Inr res) \<Rightarrow>
            (case apply_summary s pid res of
               (outs', s') \<Rightarrow> (Battery pid (real batt) # outs @ outs', s', None)))"

subsection \<open>serve\<close>

text \<open>
  The \<^verbatim>\<open>select\<close> of \<^verbatim>\<open>serve\<close> takes one event at a time; the model is given the
  events in the order in which they are taken. The loop ends by the signal, or by a
  panic of \<^verbatim>\<open>onDiscovery\<close>, which nothing recovers; when the events are used up the
  loop is waiting in \<^verbatim>\<open>select\<close>.
\<close>

datatype event = Disco string "byte list" | Tick | Sig

datatype ending = Waiting | Interrupted | Crashed panic

fun serve :: "updates \<Rightarrow> event list \<Rightarrow> effect list \<times> updates \<times> ending" where
  "serve s [] = ([], s, Waiting)"
| "serve s (Disco pid md # evs) =
     (case onDiscovery s pid md of
        (outs, s', Some e) \<Rightarrow> (outs, s', Crashed e)
      | (outs, s', None) \<Rightarrow>
          (case serve s' evs of (outs', r) \<Rightarrow> (outs @ outs', r)))"
| "serve s (Tick # evs) =
     (case drainChanged s of
        (ls, s') \<Rightarrow>
          (case serve s' evs of
             (outs', r) \<Rightarrow> (map (\<lambda>(pid, m). Log (pid @ '': '' @ m)) ls @ outs', r)))"
| "serve s (Sig # evs) = ([Log ''Exit on interrupt''], s, Interrupted)"

section \<open>Auxiliary facts\<close>

lemmas eval_defs = onDiscovery_def magic_def record_step_def dispatch_def and_then_def
  slice_from_def Uint16_def index_def fmt_v_def fmt_d.simps digit_def fmt_f1_def
  round_half_even_def light_text_def apply_summary_def

subsection \<open>The bounded loop agrees with the loop\<close>

lemma records_within_enough:
  "length rest \<le> n \<Longrightarrow> records_within n pid rest str = Some (records pid rest str)"
proof (induction n arbitrary: rest str)
  case 0
  then show ?case by simp
next
  case (Suc n)
  show ?case
  proof (cases rest)
    case Nil
    then show ?thesis by simp
  next
    case (Cons c r)
    show ?thesis
    proof (cases "record_step pid c r str")
      case (Inl e)
      with Cons show ?thesis by simp
    next
      case (Inr t)
      obtain rest' str' outs where t: "t = (rest', str', outs)" by (cases t)
      with Inr have "length rest' \<le> length r" by (auto dest: record_step_shorter)
      with Suc.prems Cons have "length rest' \<le> n" by simp
      from Suc.IH [OF this] Inr t Cons show ?thesis by (simp split: prod.splits)
    qed
  qed
qed

subsection \<open>The map of updates\<close>


lemma drainChanged_snd:
  "snd (drainChanged s) = map (\<lambda>(i, u). (i, u\<lparr>changed := False\<rparr>)) s"
  by (induction s rule: drainChanged.induct) (auto split: prod.splits)




lemma drainChanged_keys: "map fst (snd (drainChanged s)) = map fst s"
  by (simp add: drainChanged_snd split_def o_def)


subsection \<open>Words\<close>

lemma unat_ucast_byte: "unat (ucast (a :: byte) :: 16 word) = unat a"
  by transfer simp

lemma unat_little_endian:
  "unat ((ucast (a :: byte) :: 16 word) OR push_bit 8 (ucast (b :: byte))) = unat a + 256 * unat b"
proof -
  have "(ucast a :: 16 word) AND push_bit 8 (ucast b) = 0"
    by (rule bit_word_eqI) (auto simp: bit_simps dest: bit_imp_le_length)
  then have o: "(ucast a :: 16 word) OR push_bit 8 (ucast b) = ucast a + push_bit 8 (ucast b)"
    by (simp add: disjunctive_add_eq_or)
  have lt: "unat a < 256" "unat b < 256"
    using unsigned_less [of a, where ?'a = nat] unsigned_less [of b, where ?'a = nat] by simp_all
  then have "unat (push_bit 8 (ucast b :: 16 word)) = 256 * unat b"
    by (simp add: push_bit_eq_mult unat_word_ariths unat_ucast_byte)
  with lt show ?thesis
    by (simp add: o unat_word_ariths unat_ucast_byte)
qed

subsection \<open>When an iteration panics\<close>

lemma dispatch_light_16:
  "d AND 0x03 = 2 \<Longrightarrow>
   dispatch pid 0x02 (d # vs) str =
     (case vs of
        a # b # vs' \<Rightarrow>
          Inr (vs', str @ light_text (d AND 0x80 \<noteq> 0) (drop_bit 4 (d AND 0x30))
                         (drop_bit 2 (d AND 0x0c)) (ucast a OR push_bit 8 (ucast b)), [])
      | _ \<Rightarrow> Inl IndexOutOfRange)"
  by (simp add: dispatch_def and_then_def index_def slice_from_def Uint16_def
      split: list.splits)

lemma dispatch_light_8:
  "d AND 0x03 \<noteq> 2 \<Longrightarrow>
   dispatch pid 0x02 (d # vs) str =
     (case vs of
        [] \<Rightarrow> Inl IndexOutOfRange
      | a # vs' \<Rightarrow>
          if unat (d AND 0x03) \<le> length vs
          then Inr (drop (unat (d AND 0x03)) vs,
                    str @ light_text (d AND 0x80 \<noteq> 0) (drop_bit 4 (d AND 0x30))
                         (drop_bit 2 (d AND 0x0c)) (ucast a), [])
          else Inl SliceBoundsOutOfRange)"
  by (simp add: dispatch_def and_then_def index_def slice_from_def split: list.splits)

lemma dispatch_light_nil: "dispatch pid 0x02 [] str = Inl IndexOutOfRange"
  by (simp add: dispatch_def and_then_def index_def)

lemma unat_len_code: "unat (d AND 0x03 :: byte) = 2 \<longleftrightarrow> d AND 0x03 = 2"
proof
  assume "unat (d AND 0x03) = 2"
  then have "word_of_nat (unat (d AND 0x03)) = (2 :: byte)" by simp
  then show "d AND 0x03 = 2" by simp
qed simp

lemma dispatch_light_panics:
  "(\<exists>e. dispatch pid 0x02 rest str = Inl e) \<longleftrightarrow> length rest < payload_needed 0x02 rest"
proof (cases rest)
  case Nil
  then show ?thesis by (simp add: dispatch_light_nil payload_needed_def)
next
  case (Cons d vs)
  show ?thesis
  proof (cases "d AND 0x03 = 2")
    case True
    then show ?thesis
      by (simp add: Cons dispatch_light_16 payload_needed_def split: list.splits)
  next
    case False
    then have "unat (d AND 0x03) \<noteq> 2" by (simp add: unat_len_code)
    with False show ?thesis
      by (auto simp add: Cons dispatch_light_8 payload_needed_def split: list.splits)
  qed
qed

lemma dispatch_panics:
  "(\<exists>e. dispatch pid t rest str = Inl e) \<longleftrightarrow> length rest < payload_needed t rest"
proof -
  consider "t = 0x01" | "t = 0x02" | "t = 0x03" | "t = 0x2f"
    | "t \<noteq> 0x01" "t \<noteq> 0x02" "t \<noteq> 0x03" "t \<noteq> 0x2f"
    by blast
  then show ?thesis
  proof cases
    case 1
    then show ?thesis
      by (auto simp: dispatch_def payload_needed_def and_then_def slice_from_def)
  next
    case 2
    then show ?thesis by (simp add: dispatch_light_panics)
  next
    case 3
    then show ?thesis
      by (auto simp: dispatch_def payload_needed_def and_then_def slice_from_def Uint16_def Let_def)
  next
    case 4
    then show ?thesis
      by (cases rest) (auto simp: dispatch_def payload_needed_def and_then_def slice_from_def)
  next
    case 5
    then show ?thesis
      by (simp add: dispatch_def payload_needed_def)
  qed
qed

lemma record_step_panics:
  "(\<exists>e. record_step pid c rest str = Inl e) \<longleftrightarrow> truncated c rest"
proof (cases "c AND 0x80 \<noteq> 0")
  case True
  show ?thesis
  proof (cases rest)
    case Nil
    with True show ?thesis
      by (simp add: record_step_def truncated_def needed_def and_then_def slice_from_def)
  next
    case (Cons a r)
    with True have "record_step pid c rest str =
        (if c AND 0x40 = 0 then Inr (r, str, []) else dispatch pid (c AND 0x3f) r str)"
      by (simp add: record_step_def and_then_def slice_from_def)
    with True Cons show ?thesis
      by (simp add: truncated_def needed_def dispatch_panics)
  qed
next
  case False
  then have "record_step pid c rest str =
      (if c AND 0x40 = 0 then Inr (rest, str, []) else dispatch pid (c AND 0x3f) rest str)"
    by (simp add: record_step_def and_then_def)
  with False show ?thesis
    by (simp add: truncated_def needed_def dispatch_panics)
qed

lemma onDiscovery_panic:
  assumes "\<not> length md < 7" "take 5 md = magic"
    "records pid (drop 7 md) (''batt:'' @ fmt_d (unat (md ! 5)) @ ''%'') = (outs, Inl e)"
  shows "onDiscovery s pid md = (Battery pid (real (unat (md ! 5))) # outs, s, Some e)"
  using assms by (simp add: onDiscovery_def)

subsection \<open>What the record loop emits and appends\<close>

lemma dispatch_effects:
  assumes "dispatch pid t rest str = Inr (rest', str', outs)"
  shows "(\<exists>x. str' = str @ x) \<and> (\<exists>ts. outs = map (AirTemp pid) ts)"
proof -
  have nil: "\<exists>ts. [] = map (AirTemp pid) ts" by simp
  have one: "\<exists>ts. [AirTemp pid v] = map (AirTemp pid) ts" for v
    by (rule exI [of _ "[v]"]) simp
  consider "t = 0x01" | "t = 0x02" | "t = 0x03" | "t = 0x2f" | "t = 0x3f"
    | "t \<noteq> 0x01" "t \<noteq> 0x02" "t \<noteq> 0x03" "t \<noteq> 0x2f" "t \<noteq> 0x3f"
    by blast
  then show ?thesis
  proof cases
    case 1
    with assms show ?thesis by (auto simp: dispatch_def and_then_Inr)
  next
    case 2
    with assms show ?thesis by (auto simp: dispatch_def and_then_Inr Let_def)
  next
    case 3
    with assms one show ?thesis by (auto simp: dispatch_def and_then_Inr Let_def)
  next
    case 4
    with assms show ?thesis by (auto simp: dispatch_def and_then_Inr)
  next
    case 5
    with assms show ?thesis by (simp add: dispatch_def)
  next
    case 6
    with assms show ?thesis by (simp add: dispatch_def)
  qed
qed

lemma record_step_effects:
  assumes "record_step pid c rest str = Inr (rest', str', outs)"
  shows "(\<exists>x. str' = str @ x) \<and> (\<exists>ts. outs = map (AirTemp pid) ts)"
proof -
  from assms obtain r where
    "(if \<not> c AND 0x40 \<noteq> 0 then Inr (r, str, []) else dispatch pid (c AND 0x3f) r str)
       = Inr (rest', str', outs)"
    unfolding record_step_def Let_def and_then_Inr by blast
  then show ?thesis
    by (cases "c AND 0x40 \<noteq> 0") (auto dest: dispatch_effects)
qed


lemma records_builder:
  "records pid rest str = (outs, Inr res) \<Longrightarrow> \<exists>x. res = str @ x"
proof (induction pid rest str arbitrary: outs rule: records.induct)
  case (1 pid str)
  then show ?case by simp
next
  case (2 pid c rest str)
  show ?case
  proof (cases "record_step pid c rest str")
    case (Inl e)
    with "2.prems" show ?thesis by simp
  next
    case (Inr t)
    obtain rest' str' outs0 where t: "t = (rest', str', outs0)" by (cases t)
    from record_step_effects Inr t obtain x where x: "str' = str @ x" by blast
    from "2.prems" Inr t obtain outs' where "records pid rest' str' = (outs', Inr res)"
      by (auto split: prod.splits)
    from "2.IH" [OF Inr t [symmetric] refl this] obtain y where "res = str' @ y" by blast
    with x show ?thesis by simp
  qed
qed


section \<open>The claims\<close>

text \<open>
  C7. For every byte sequence shorter than 7 bytes, or whose first 5 bytes differ from
  the magic prefix 85 00 02 00 3c, \<open>onDiscovery\<close> returns at once: the map of updates
  is unchanged, nothing is logged and no gauge is set, and \<open>serve\<close> goes on with the
  next event.
\<close>

theorem not_ours_is_ignored:
  "length md < 7 \<or> take 5 md \<noteq> magic \<Longrightarrow>
     onDiscovery s pid md = ([], s, None) \<and> serve s (Disco pid md # evs) = serve s evs"
  by (auto simp: onDiscovery_def)

theorem not_ours_is_ignored_witness:
  "(length [0x85, 0x00, 0x02 :: byte] < 7 \<or> take 5 [0x85, 0x00, 0x02 :: byte] \<noteq> magic)
   \<and> onDiscovery [] ''d'' [0x85, 0x00, 0x02] = ([], [], None)
   \<and> serve [] [Disco ''d'' [0x85, 0x00, 0x02]] = ([], [], Waiting)"
  using not_ours_is_ignored [of "[0x85, 0x00, 0x02]" "[]" "''d''" "[]"] by simp

text \<open>
  C8. On an empty map, the payload 85 00 02 00 3c 32 00 gives the summary
  \<open>batt:50%\<close>; with 43 90 01 appended the temperature gauge is set to
  400 * 0.0625 = 25 and the summary is \<open>batt:50% temp:25.0\<close> followed by the degree
  sign and \<open>C\<close>. The summary is the message stored and the text of the log line.
\<close>

theorem decode_examples:
  "onDiscovery [] pid [0x85, 0x00, 0x02, 0x00, 0x3c, 0x32, 0x00]
     = ([Battery pid 50, Log (pid @ '': new: batt:50%'')],
        [(pid, \<lparr>message = ''batt:50%'', changed = True\<rparr>)], None)
   \<and> onDiscovery [] pid [0x85, 0x00, 0x02, 0x00, 0x3c, 0x32, 0x00, 0x43, 0x90, 0x01]
     = ([Battery pid 50, AirTemp pid (400 * 0.0625),
         Log (pid @ '': new: batt:50% temp:25.0'' @ degree @ ''C'')],
        [(pid, \<lparr>message = ''batt:50% temp:25.0'' @ degree @ ''C'', changed = True\<rparr>)], None)"
  by (simp add: eval_defs)

text \<open>
  C10. Every iteration of the record loop that does not panic leaves fewer bytes than
  it started with (the control byte is taken before the dispatch), so the loop over a
  buffer of \<open>n\<close> bytes ends within \<open>n\<close> iterations, whatever the data types of its
  records.
\<close>

theorem records_terminates:
  "(\<forall>rest' str' outs. record_step pid c rest str = Inr (rest', str', outs)
       \<longrightarrow> length rest' < length (c # rest))
   \<and> records_within (length buf) pid buf str0 = Some (records pid buf str0)"
  by (auto dest: record_step_shorter simp: records_within_enough less_Suc_eq_le)

theorem records_terminates_witness:
  "record_step ''d'' 0x50 [0x43, 0x90, 0x01] ''batt:50%'' = Inr ([0x43, 0x90, 0x01], ''batt:50%'', [])
   \<and> length [0x43, 0x90, 0x01 :: byte] < length [0x50, 0x43, 0x90, 0x01 :: byte]
   \<and> records_within (length [0x50, 0x43, 0x90, 0x01 :: byte]) ''d'' [0x50, 0x43, 0x90, 0x01] ''batt:50%''
       = Some ([AirTemp ''d'' 25], Inr (''batt:50% temp:25.0'' @ degree @ ''C''))"
proof -
  note t = records_terminates [of "''d''" "0x50" "[0x43, 0x90, 0x01]" "''batt:50%''"
      "[0x50, 0x43, 0x90, 0x01]" "''batt:50%''"]
  have s: "record_step ''d'' 0x50 [0x43, 0x90, 0x01] ''batt:50%''
             = Inr ([0x43, 0x90, 0x01], ''batt:50%'', [])"
    by (simp add: eval_defs)
  have e: "records ''d'' [0x50, 0x43, 0x90, 0x01] ''batt:50%''
             = ([AirTemp ''d'' 25], Inr (''batt:50% temp:25.0'' @ degree @ ''C''))"
    by (simp add: eval_defs)
  from t [THEN conjunct1] s
  have "length [0x43, 0x90, 0x01 :: byte] < length [0x50, 0x43, 0x90, 0x01 :: byte]"
    by blast
  moreover from t [THEN conjunct2]
  have "records_within (length [0x50, 0x43, 0x90, 0x01 :: byte]) ''d'' [0x50, 0x43, 0x90, 0x01] ''batt:50%''
          = Some ([AirTemp ''d'' 25], Inr (''batt:50% temp:25.0'' @ degree @ ''C''))"
    by (simp only: e)
  ultimately show ?thesis using s by blast
qed



text \<open>
  C1, as the code has it. A record with has-data set and a data type other than 0x01,
  0x02, 0x03, 0x2f and 0x3f raises no failure: the \<^verbatim>\<open>switch\<close> has no case for it, so
  only the control byte (and the alert byte, when has-alert is set) is consumed and the
  loop goes on with the next byte as a control byte. The only panic is the bounds check
  of a missing alert byte.
\<close>

theorem unknown_type_is_skipped:
  "c AND 0x40 \<noteq> 0 \<Longrightarrow> c AND 0x3f \<notin> {0x01, 0x02, 0x03, 0x2f, 0x3f} \<Longrightarrow>
   records pid (c # rest) str =
     (if c AND 0x80 \<noteq> 0
      then (case rest of [] \<Rightarrow> ([], Inl SliceBoundsOutOfRange) | a # rest' \<Rightarrow> records pid rest' str)
      else records pid rest str)"
  by (cases rest) (simp_all add: record_step_def dispatch_def and_then_def slice_from_def)

theorem unknown_type_is_skipped_witness:
  "(0x50 :: byte) AND 0x40 \<noteq> 0 \<and> (0x50 :: byte) AND 0x3f \<notin> {0x01, 0x02, 0x03, 0x2f, 0x3f}
   \<and> records ''d'' [0x50, 0x43, 0x90, 0x01] ''batt:50%'' = records ''d'' [0x43, 0x90, 0x01] ''batt:50%''"
  using unknown_type_is_skipped [of "0x50" "''d''" "[0x43, 0x90, 0x01]" "''batt:50%''"]
  by simp

theorem unknown_type_cex:
  "onDiscovery [] ''d'' [0x85, 0x00, 0x02, 0x00, 0x3c, 0x32, 0x00, 0x50, 0x43, 0x90, 0x01]
     = ([Battery ''d'' 50, AirTemp ''d'' 25, Log (''d: new: batt:50% temp:25.0'' @ degree @ ''C'')],
        [(''d'', \<lparr>message = ''batt:50% temp:25.0'' @ degree @ ''C'', changed = True\<rparr>)], None)"
  by (simp add: eval_defs)

text \<open>
  C4, as the code has it. The loop stops at a control byte whose data type is 0x3f and
  whose has-data bit is set, that is 0x7f, or 0xff followed by its alert byte: the
  result is the builder as it is, whatever bytes follow. The control byte 0x3f has
  has-data clear and is passed over like any record without data.
\<close>

theorem encryption_marker_stops:
  "records pid (0x7f # rest) str = ([], Inr str)
   \<and> records pid (0xff # a # rest) str = ([], Inr str)
   \<and> records pid (0x3f # rest) str = records pid rest str"
  by (simp add: record_step_def dispatch_def and_then_def slice_from_def)

theorem control_3f_cex:
  "records ''d'' [0x3f, 0x43, 0x90, 0x01] ''batt:50%''
     = ([AirTemp ''d'' 25], Inr (''batt:50% temp:25.0'' @ degree @ ''C''))
   \<and> records ''d'' [0x3f, 0x43, 0x90, 0x01] ''batt:50%'' \<noteq> records ''d'' [0x3f] ''batt:50%''"
  by (simp add: eval_defs)

text \<open>
  C2, as the code has it. A truncated record makes the iteration that reads it panic
  (a failed bounds check, so nothing is read out of bounds), whatever the builder holds.
  When the record loop panics, \<open>onDiscovery\<close> has set the battery gauge and the
  temperature gauges of the records before, has written no log line and has left the
  map of updates as it was; the panic is not recovered, so \<open>serve\<close> ends with it and
  takes no further event.
\<close>

theorem truncated_record_panics:
  "(truncated c rest \<longrightarrow>
      (\<exists>e. record_step pid c rest str = Inl e \<and> records pid (c # rest) str = ([], Inl e)))
   \<and> (\<not> length md < 7 \<and> take 5 md = magic
        \<and> records pid (drop 7 md) (''batt:'' @ fmt_d (unat (md ! 5)) @ ''%'') = (outs, Inl e')
      \<longrightarrow> onDiscovery s pid md = (Battery pid (real (unat (md ! 5))) # outs, s, Some e')
        \<and> serve s (Disco pid md # evs) = (Battery pid (real (unat (md ! 5))) # outs, s, Crashed e'))"
proof (intro conjI impI)
  assume "truncated c rest"
  then obtain e where "record_step pid c rest str = Inl e"
    using record_step_panics by blast
  then show "\<exists>e. record_step pid c rest str = Inl e \<and> records pid (c # rest) str = ([], Inl e)"
    by simp
next
  assume a: "\<not> length md < 7 \<and> take 5 md = magic
        \<and> records pid (drop 7 md) (''batt:'' @ fmt_d (unat (md ! 5)) @ ''%'') = (outs, Inl e')"
  then show d: "onDiscovery s pid md = (Battery pid (real (unat (md ! 5))) # outs, s, Some e')"
    by (simp add: onDiscovery_panic)
  then show "serve s (Disco pid md # evs) = (Battery pid (real (unat (md ! 5))) # outs, s, Crashed e')"
    by simp
qed

theorem truncated_record_panics_witness:
  "truncated 0x43 [0x90]
   \<and> record_step ''d'' 0x43 [0x90] ''batt:50%'' = Inl IndexOutOfRange
   \<and> onDiscovery [] ''d'' [0x85, 0x00, 0x02, 0x00, 0x3c, 0x32, 0x00, 0x43, 0x90]
        = ([Battery ''d'' 50], [], Some IndexOutOfRange)
   \<and> serve [] [Disco ''d'' [0x85, 0x00, 0x02, 0x00, 0x3c, 0x32, 0x00, 0x43, 0x90], Tick]
        = ([Battery ''d'' 50], [], Crashed IndexOutOfRange)"
proof -
  note t = truncated_record_panics [of "0x43" "[0x90]" "''d''" "''batt:50%''"
      "[0x85, 0x00, 0x02, 0x00, 0x3c, 0x32, 0x00, 0x43, 0x90]" "[]" IndexOutOfRange "[]" "[Tick]"]
  have tr: "truncated 0x43 [0x90]"
    by (simp add: truncated_def needed_def payload_needed_def)
  have r: "records ''d'' (drop 7 [0x85, 0x00, 0x02, 0x00, 0x3c, 0x32, 0x00, 0x43, 0x90])
             (''batt:'' @ fmt_d (unat ([0x85, 0x00, 0x02, 0x00, 0x3c, 0x32, 0x00, 0x43, 0x90 :: byte] ! 5)) @ ''%'')
           = ([], Inl IndexOutOfRange)"
    by (simp add: eval_defs)
  from t [THEN conjunct1] tr
  have "\<exists>e. record_step ''d'' 0x43 [0x90] ''batt:50%'' = Inl e
           \<and> records ''d'' [0x43, 0x90] ''batt:50%'' = ([], Inl e)"
    by blast
  then have 1: "record_step ''d'' 0x43 [0x90] ''batt:50%'' = Inl IndexOutOfRange"
    by (auto simp: eval_defs)
  from t [THEN conjunct2] r
  have "onDiscovery [] ''d'' [0x85, 0x00, 0x02, 0x00, 0x3c, 0x32, 0x00, 0x43, 0x90]
        = ([Battery ''d'' 50], [], Some IndexOutOfRange)
     \<and> serve [] [Disco ''d'' [0x85, 0x00, 0x02, 0x00, 0x3c, 0x32, 0x00, 0x43, 0x90], Tick]
        = ([Battery ''d'' 50], [], Crashed IndexOutOfRange)"
    by (simp add: magic_def)
  with tr 1 show ?thesis by blast
qed

theorem truncated_cex:
  "serve [] [Disco ''d'' [0x85, 0x00, 0x02, 0x00, 0x3c, 0x32, 0x00, 0x43, 0x90],
             Disco ''d'' [0x85, 0x00, 0x02, 0x00, 0x3c, 0x32, 0x00]]
     = ([Battery ''d'' 50], [], Crashed IndexOutOfRange)"
  by (simp add: eval_defs)

text \<open>
  C5, as the code has it. A light record that is decoded has a descriptor \<open>d\<close> with
  length code \<open>d AND 3\<close> and at least one byte after it. With length code 2 the value
  is the 16-bit little-endian number of the two bytes after the descriptor; with any
  other length code it is the single byte after the descriptor. In both cases the
  record consumes the descriptor and as many bytes as the length code says: 1 + 2 for
  code 2, 1 + 1 for code 1, the descriptor alone for code 0, 1 + 3 for code 3.
\<close>

theorem light_record:
  assumes "dispatch pid 0x02 (d # vs) str = Inr (rest', str', outs)"
  shows "let dataLen = unat (d AND 0x03);
             data = (if dataLen = 2 then unat (vs ! 0) + 256 * unat (vs ! 1) else unat (vs ! 0))
         in vs \<noteq> [] \<and> (dataLen = 2 \<longrightarrow> 2 \<le> length vs) \<and> dataLen \<le> length vs
          \<and> rest' = drop dataLen vs
          \<and> length (d # vs) - length rest' = 1 + dataLen
          \<and> str' = str @ light_text (d AND 0x80 \<noteq> 0) (drop_bit 4 (d AND 0x30))
                          (drop_bit 2 (d AND 0x0c)) (word_of_nat data)
          \<and> outs = []"
proof (cases "d AND 0x03 = 2")
  case True
  then have u: "unat (d AND 0x03) = 2" by simp
  from assms obtain a b vs' where vs: "vs = a # b # vs'"
    by (auto simp: dispatch_light_16 [OF True] split: list.splits)
  have "(ucast a OR push_bit 8 (ucast b) :: 16 word) = word_of_nat (unat a + 256 * unat b)"
    by (simp add: unat_little_endian [symmetric])
  with assms vs show ?thesis
    unfolding Let_def u by (auto simp: dispatch_light_16 [OF True])
next
  case False
  have u: "unat (d AND 0x03) \<noteq> 2"
  proof
    assume "unat (d AND 0x03) = 2"
    then have "word_of_nat (unat (d AND 0x03)) = (2 :: byte)" by simp
    with False show False by simp
  qed
  from assms obtain a vs' where vs: "vs = a # vs'" and le: "unat (d AND 0x03) \<le> length vs"
    by (auto simp: dispatch_light_8 [OF False] split: list.splits if_splits)
  have "(ucast a :: 16 word) = word_of_nat (unat a)"
    by (simp add: unat_ucast_byte [symmetric])
  with assms vs le u show ?thesis
    unfolding Let_def by (auto simp: dispatch_light_8 [OF False])
qed

theorem light_record_witness:
  "dispatch ''d'' 0x02 (0x82 # [0x34, 0x12, 0x7f]) ''batt:50%''
     = Inr ([0x7f], ''batt:50% light:true/0/0/4660'', [])
   \<and> [0x7f] = drop (unat (0x82 AND 0x03 :: byte)) [0x34, 0x12, 0x7f :: byte]
   \<and> length (0x82 # [0x34, 0x12, 0x7f :: byte]) - length [0x7f :: byte] = 1 + 2"
proof -
  have e: "dispatch ''d'' 0x02 (0x82 # [0x34, 0x12, 0x7f]) ''batt:50%''
             = Inr ([0x7f], ''batt:50% light:true/0/0/4660'', [])"
    by (simp add: eval_defs)
  from light_record [OF e] e show ?thesis by (simp add: Let_def)
qed

theorem light_record_cex:
  "dispatch ''d'' 0x02 [0x00, 0x7f] ''batt:50%'' = Inr ([0x7f], ''batt:50% light:false/0/0/127'', [])
   \<and> length [0x00, 0x7f :: byte] - length [0x7f :: byte] \<noteq> 1 + 1
   \<and> dispatch ''d'' 0x02 [0x03, 9, 2, 3, 0x7f] ''batt:50%'' = Inr ([0x7f], ''batt:50% light:false/0/0/9'', [])
   \<and> length [0x03, 9, 2, 3, 0x7f :: byte] - length [0x7f :: byte] \<noteq> 1 + 1"
  by (simp add: eval_defs)

text \<open>
  C3, as the code has it. For a peripheral id with no entry in the map, a call of
  \<open>onDiscovery\<close> whose record loop ends without a panic writes the line
  \<open>id: new: summary\<close> at once, after the gauges, and leaves the entry of the id with
  the summary as its message and with changed set: the fresh entry has the empty
  message, the summary is never empty, so the comparison of line 203 marks it.
\<close>

theorem first_observation:
  assumes "map_of s pid = None" "\<not> length md < 7" "take 5 md = magic"
    and "records pid (drop 7 md) (''batt:'' @ fmt_d (unat (md ! 5)) @ ''%'') = (outs, Inr res)"
  shows "\<exists>s'. onDiscovery s pid md
           = (Battery pid (real (unat (md ! 5))) # outs @ [Log (pid @ '': new: '' @ res)], s', None)
         \<and> map_of s' = (map_of s)(pid \<mapsto> \<lparr>message = res, changed = True\<rparr>)"
proof -
  from records_builder [OF assms(4)] have "res \<noteq> []" by auto
  with assms show ?thesis
    by (simp add: onDiscovery_def apply_summary_def update_conv')
qed

theorem first_observation_witness:
  "map_of ([] :: updates) ''d'' = None
   \<and> onDiscovery [] ''d'' [0x85, 0x00, 0x02, 0x00, 0x3c, 0x32, 0x00]
     = ([Battery ''d'' 50, Log ''d: new: batt:50%''],
        [(''d'', \<lparr>message = ''batt:50%'', changed = True\<rparr>)], None)"
proof -
  have r: "records ''d'' (drop 7 [0x85, 0x00, 0x02, 0x00, 0x3c, 0x32, 0x00])
             (''batt:'' @ fmt_d (unat ([0x85, 0x00, 0x02, 0x00, 0x3c, 0x32, 0x00 :: byte] ! 5)) @ ''%'')
           = ([], Inr ''batt:50%'')"
    by (simp add: eval_defs)
  have "map_of ([] :: updates) ''d'' = None" by simp
  from first_observation [OF this _ _ r]
  have "\<exists>s'. onDiscovery [] ''d'' [0x85, 0x00, 0x02, 0x00, 0x3c, 0x32, 0x00]
           = ([Battery ''d'' 50, Log ''d: new: batt:50%''], s', None)"
    by (auto simp: magic_def)
  then show ?thesis by (auto simp: eval_defs)
qed

theorem first_observation_cex:
  "map_of (fst (snd (onDiscovery [] ''d'' [0x85, 0x00, 0x02, 0x00, 0x3c, 0x32, 0x00]))) ''d''
     = Some \<lparr>message = ''batt:50%'', changed = True\<rparr>"
  by (simp add: eval_defs)




end
